theory Spec2Isabelle
  imports Main "HOL-Library.AList" "HOL-Library.Sublist" "HOL-Library.Multiset"
begin

section \<open>The lounge logger (lounge.go)\<close>

text \<open>
  The development follows \<^verbatim>\<open>lounge.go\<close>: a \<^verbatim>\<open>DefaultLog\<close> holds a reference to a Go map of
  context pairs, the debug flag and a reference to an \<^verbatim>\<open>io.Writer\<close>. Loggers are handled
  through pointers (\<^verbatim>\<open>*DefaultLog\<close>) and Go maps are reference values, so the model keeps
  an explicit store of logger objects, map objects and writers, and every operation
  passes the store along.

  What the code takes from the Go runtime and standard library is supplied by the
  environment of a call (\<open>env\<close>): the formatted current time, the \<^verbatim>\<open>GOPATH\<close> variable, the
  call stack that \<^verbatim>\<open>runtime.Callers\<close> sees, and the order in which a \<^verbatim>\<open>range\<close> statement
  visits a map. Loggers are the ones \<^verbatim>\<open>NewDefaultLog\<close> builds: their map and writer
  references are never nil.
\<close>

subsection \<open>Library functions used by the logger\<close>

text \<open>\<^verbatim>\<open>strconv.Itoa\<close>: the decimal text of an integer.\<close>

definition digit :: "nat \<Rightarrow> char" where
  "digit n = ''0123456789'' ! (n mod 10)"

function decimal :: "nat \<Rightarrow> string" where
  "decimal n = (if n < 10 then [digit n] else decimal (n div 10) @ [digit n])"
  by pat_completeness auto
termination
  by (relation "measure id") auto

declare decimal.simps [simp del]

definition Itoa :: "int \<Rightarrow> string" where
  "Itoa i = (if i < 0 then CHR ''-'' # decimal (nat (- i)) else decimal (nat i))"

text \<open>\<^verbatim>\<open>strings.Join(elems, sep)\<close>.\<close>

fun Join :: "string list \<Rightarrow> string \<Rightarrow> string" where
  "Join [] sep = []"
| "Join [x] sep = x"
| "Join (x # y # ys) sep = x @ sep @ Join (y # ys) sep"

text \<open>
  \<^verbatim>\<open>strings.ReplaceAll(s, old, new)\<close>: every non-overlapping instance of \<open>old\<close>, found
  from the left, is replaced by \<open>new\<close>. With an empty \<open>old\<close> Go inserts \<open>new\<close> before every
  character and at the end.
\<close>

function ReplaceAll :: "string \<Rightarrow> string \<Rightarrow> string \<Rightarrow> string" where
  "ReplaceAll s old new =
     (if old = [] then new @ concat (map (\<lambda>c. c # new) s)
      else if s = [] then []
      else if prefix old s then new @ ReplaceAll (drop (length old) s) old new
      else hd s # ReplaceAll (tl s) old new)"
  by pat_completeness auto
termination
  by (relation "measure (\<lambda>(s, old, new). length s)") auto

declare ReplaceAll.simps [simp del]

text \<open>\<^verbatim>\<open>strings.Contains(s, sub)\<close>, used to state what a line contains.\<close>

fun Contains :: "string \<Rightarrow> string \<Rightarrow> bool" where
  "Contains [] sub = (sub = [])"
| "Contains (c # cs) sub = (prefix sub (c # cs) \<or> Contains cs sub)"


subsection \<open>Formatting: the part of \<^verbatim>\<open>fmt\<close> that is modelled\<close>

text \<open>
  Operands are strings and ints. The verbs \<^verbatim>\<open>%s\<close>, \<^verbatim>\<open>%d\<close>, \<^verbatim>\<open>%v\<close> and \<^verbatim>\<open>%%\<close> are modelled, with
  the error texts of package \<^verbatim>\<open>fmt\<close>: \<^verbatim>\<open>%!verb(type=value)\<close> for an operand of the wrong type,
  \<^verbatim>\<open>%!verb(MISSING)\<close> when no operand is left, \<^verbatim>\<open>%!(NOVERB)\<close> for a format that ends in a
  percent sign and \<^verbatim>\<open>%!(EXTRA type=value, ...)\<close> for operands that no verb used. Any other
  directive (flags, width, precision, argument indexes, other verbs) is not modelled:
  from there on the text is whatever the environment's \<open>fmtOther\<close> function returns for the
  rest of the format and the operands left, so that a theorem about all environments holds
  for whatever package \<^verbatim>\<open>fmt\<close> prints there.
\<close>

datatype arg = StringArg string | IntArg int

fun typeName :: "arg \<Rightarrow> string" where
  "typeName (StringArg x) = ''string''"
| "typeName (IntArg i) = ''int''"

fun printValue :: "arg \<Rightarrow> string" where
  "printValue (StringArg x) = x"
| "printValue (IntArg i) = Itoa i"

definition badVerb :: "char \<Rightarrow> arg \<Rightarrow> string" where
  "badVerb verb a = ''%!'' @ [verb] @ ''('' @ typeName a @ ''='' @ printValue a @ '')''"

fun printArg :: "arg \<Rightarrow> char \<Rightarrow> string" where
  "printArg (StringArg x) verb = (if verb = CHR ''d'' then badVerb verb (StringArg x) else x)"
| "printArg (IntArg i) verb = (if verb = CHR ''s'' then badVerb verb (IntArg i) else Itoa i)"

fun extraArgs :: "arg list \<Rightarrow> string list" where
  "extraArgs [] = []"
| "extraArgs (a # as) = (typeName a @ ''='' @ printValue a) # extraArgs as"

definition extra :: "arg list \<Rightarrow> string" where
  "extra as = (if as = [] then [] else ''%!(EXTRA '' @ Join (extraArgs as) '', '' @ '')'')"

fun doPrintf :: "(string \<Rightarrow> arg list \<Rightarrow> string) \<Rightarrow> string \<Rightarrow> arg list \<Rightarrow> string" where
  "doPrintf other [] as = extra as"
| "doPrintf other (c # cs) as =
     (if c \<noteq> CHR ''%'' then c # doPrintf other cs as
      else (case cs of
              [] \<Rightarrow> ''%!(NOVERB)'' @ extra as
            | verb # rest \<Rightarrow>
                if verb = CHR ''%'' then CHR ''%'' # doPrintf other rest as
                else if verb = CHR ''s'' \<or> verb = CHR ''d'' \<or> verb = CHR ''v'' then
                  (case as of
                     [] \<Rightarrow> ''%!'' @ [verb] @ ''(MISSING)'' @ doPrintf other rest []
                   | a # as' \<Rightarrow> printArg a verb @ doPrintf other rest as')
                else other (c # cs) as))"

definition Sprintf :: "(string \<Rightarrow> arg list \<Rightarrow> string) \<Rightarrow> string \<Rightarrow> arg list \<Rightarrow> string" where
  "Sprintf other format as = doPrintf other format as"

subsection \<open>Call stack and caller lookup\<close>

record Frame =
  Function :: string
  File :: string
  Line :: int

text \<open>
  \<^verbatim>\<open>frames.Next()\<close>: the next frame and whether more follow; on an exhausted iterator the
  zero frame and false.
\<close>

definition zeroFrame :: Frame where
  "zeroFrame = \<lparr>Function = [], File = [], Line = 0\<rparr>"

fun Next :: "Frame list \<Rightarrow> Frame \<times> bool \<times> Frame list" where
  "Next [] = (zeroFrame, False, [])"
| "Next [f] = (f, False, [])"
| "Next (f # fs) = (f, True, fs)"

text \<open>
  The loop of \<^verbatim>\<open>getFrame\<close>:
  \<^verbatim>\<open>for more, frameIndex := true, 0; more && frameIndex <= targetFrameIndex; frameIndex++\<close>.
\<close>

function frameLoop :: "Frame list \<Rightarrow> bool \<Rightarrow> nat \<Rightarrow> nat \<Rightarrow> Frame \<Rightarrow> Frame" where
  "frameLoop frames hasMore frameIndex targetFrameIndex frame =
     (if hasMore \<and> frameIndex \<le> targetFrameIndex then
        (case Next frames of
           (frameCandidate, hasMore', frames') \<Rightarrow>
             frameLoop frames' hasMore' (frameIndex + 1) targetFrameIndex
               (if frameIndex = targetFrameIndex then frameCandidate else frame))
      else frame)"
  by pat_completeness auto
termination
  by (relation "measure (\<lambda>(frames, hasMore, frameIndex, targetFrameIndex, frame).
        targetFrameIndex + 1 - frameIndex)") auto

declare frameLoop.simps [simp del]

text \<open>
  \<^verbatim>\<open>getFrame(skipFrames)\<close>. The argument \<open>callers\<close> is the stack as \<^verbatim>\<open>runtime.Callers(0, ...)\<close>
  finds it, \<^verbatim>\<open>runtime.Callers\<close> itself first; the buffer holds \<open>targetFrameIndex + 2\<close>
  program counters, so \<open>n\<close> is at most that.
\<close>

definition getFrame :: "Frame list \<Rightarrow> nat \<Rightarrow> Frame" where
  "getFrame callers skipFrames =
     (let targetFrameIndex = skipFrames + 2;
          programCounters = take (targetFrameIndex + 2) callers;
          n = length programCounters;
          frame = \<lparr>Function = ''unknown'', File = [], Line = 0\<rparr>
      in if n > 0 then frameLoop programCounters True 0 targetFrameIndex frame else frame)"

subsection \<open>The store and the environment\<close>

record DefaultLog =
  pairs :: nat
  enableDebug :: bool
  "output" :: nat

record store =
  logs :: "nat \<Rightarrow> DefaultLog"
  gomaps :: "nat \<Rightarrow> (string \<times> string) list"
  writers :: "nat \<Rightarrow> string"
  fresh :: nat

record env =
  now :: string
  gopath :: "string option"
  callers :: "Frame list"
  order :: "nat list"
  fmtOther :: "string \<Rightarrow> arg list \<Rightarrow> string"

text \<open>
  A Go map object is its list of entries, keys distinct; \<^verbatim>\<open>m[k] = v\<close> is \<open>AList.update\<close>.
  Go leaves the order of a \<^verbatim>\<open>range\<close> over a map unspecified. The environment picks it:
  \<open>rangeOrder ns xs\<close> inserts each entry at the position the next number of \<open>ns\<close> names,
  which gives a permutation of the entries for every \<open>ns\<close>, and every permutation for
  some \<open>ns\<close>.
\<close>

fun rangeOrder :: "nat list \<Rightarrow> 'a list \<Rightarrow> 'a list" where
  "rangeOrder ns [] = []"
| "rangeOrder [] (x # xs) = x # rangeOrder [] xs"
| "rangeOrder (n # ns) (x # xs) =
     (let ys = rangeOrder ns xs in take n ys @ x # drop n ys)"

text \<open>\<^verbatim>\<open>fmt.Fprintf(w, format, args...)\<close> on a writer that keeps what it is given.\<close>

definition Fprintf :: "env \<Rightarrow> nat \<Rightarrow> string \<Rightarrow> arg list \<Rightarrow> store \<Rightarrow> store" where
  "Fprintf e w format as s =
     s\<lparr>writers := (writers s)(w := writers s w @ Sprintf (fmtOther e) format as)\<rparr>"

subsection \<open>Construction\<close>

datatype Option = WithDebugEnabled | WithOutput nat

fun applyOption :: "Option \<Rightarrow> DefaultLog \<Rightarrow> DefaultLog" where
  "applyOption WithDebugEnabled l = l\<lparr>enableDebug := True\<rparr>"
| "applyOption (WithOutput w) l = l\<lparr>output := w\<rparr>"

text \<open>
  \<^verbatim>\<open>NewDefaultLog(opts...)\<close>: a buffered writer on standard output and an empty map are
  allocated, then the options are applied in order. The result is the address of the
  new logger.
\<close>

definition NewDefaultLog :: "Option list \<Rightarrow> store \<Rightarrow> nat \<times> store" where
  "NewDefaultLog opts s =
     (let w = fresh s; m = fresh s + 1; dl = fresh s + 2;
          l = \<lparr>pairs = m, enableDebug = False, output = w\<rparr>;
          l' = fold applyOption opts l
      in (dl, s\<lparr>logs := (logs s)(dl := l'),
                gomaps := (gomaps s)(m := []),
                writers := (writers s)(w := []),
                fresh := fresh s + 3\<rparr>))"

subsection \<open>The operations\<close>

text \<open>
  \<^verbatim>\<open>With(pairs)\<close>. \<^verbatim>\<open>newPairs := dl.pairs\<close> copies the reference to the logger's map, not the
  map, so the loop \<^verbatim>\<open>newPairs[k] = v\<close> writes into the logger's own map object; then
  \<^verbatim>\<open>dl.pairs = newPairs\<close> stores the same reference back and \<^verbatim>\<open>dl\<close> is returned. The argument
  is a Go map, given by its entries; the loop visits them in the order the environment
  picks.
\<close>

definition mapAssign :: "nat \<Rightarrow> string \<times> string \<Rightarrow> store \<Rightarrow> store" where
  "mapAssign m kv s = s\<lparr>gomaps := (gomaps s)(m := AList.update (fst kv) (snd kv) (gomaps s m))\<rparr>"

definition With :: "env \<Rightarrow> nat \<Rightarrow> (string \<times> string) list \<Rightarrow> store \<Rightarrow> nat \<times> store" where
  "With e dl prs s =
     (let newPairs = pairs (logs s dl);
          s1 = fold (mapAssign newPairs) (rangeOrder (order e) prs) s;
          s2 = s1\<lparr>logs := (logs s1)(dl := (logs s1 dl)\<lparr>pairs := newPairs\<rparr>)\<rparr>
      in (dl, s2))"

text \<open>
  \<^verbatim>\<open>printLevel(level, fmtStr, args...)\<close>. The loop over \<^verbatim>\<open>dl.pairs\<close> renders every entry with
  \<^verbatim>\<open>fmt.Sprintf("%s=%s", k, v)\<close> (\<open>renderPairs\<close>); with the debug flag set the caller is
  looked up with \<^verbatim>\<open>getFrame(2)\<close> and \<^verbatim>\<open>GOPATH\<close> is cut out of it (\<open>callerWithLine\<close>). Time,
  level, caller and pairs are concatenated with \<^verbatim>\<open>fmtStr\<close> into the format string of one
  \<^verbatim>\<open>fmt.Fprintf\<close> call on the logger's writer.
\<close>

definition renderPairs :: "env \<Rightarrow> (string \<times> string) list \<Rightarrow> string list" where
  "renderPairs e m = map (\<lambda>(k, v). Sprintf (fmtOther e) ''%s=%s'' [StringArg k, StringArg v]) (rangeOrder (order e) m)"

definition callerWithLine :: "env \<Rightarrow> string" where
  "callerWithLine e =
     (let caller = getFrame (callers e) 2;
          cwl = File caller @ ''#'' @ Itoa (Line caller)
      in case gopath e of
           Some g \<Rightarrow> ReplaceAll cwl (g @ ''/src/'') []
         | None \<Rightarrow> cwl)"

definition printLevel :: "env \<Rightarrow> nat \<Rightarrow> string \<Rightarrow> string \<Rightarrow> arg list \<Rightarrow> store \<Rightarrow> store" where
  "printLevel e dl level fmtStr as s =
     (let currentTime = now e;
          prs = renderPairs e (gomaps s (pairs (logs s dl)))
      in if enableDebug (logs s dl) then
           Fprintf e (output (logs s dl))
             (currentTime @ '' |'' @ level @ ''| '' @ callerWithLine e @ '' '' @ Join prs '' '' @ fmtStr @ ''\<newline>'') as s
         else
           Fprintf e (output (logs s dl))
             (currentTime @ '' |'' @ level @ ''| '' @ Join prs '' '' @ fmtStr @ ''\<newline>'') as s)"

definition Debugf :: "env \<Rightarrow> nat \<Rightarrow> string \<Rightarrow> arg list \<Rightarrow> store \<Rightarrow> store" where
  "Debugf e dl fmtStr as s =
     (if \<not> enableDebug (logs s dl) then s else printLevel e dl ''DEBUG'' fmtStr as s)"

definition Infof :: "env \<Rightarrow> nat \<Rightarrow> string \<Rightarrow> arg list \<Rightarrow> store \<Rightarrow> store" where
  "Infof e dl fmtStr as s = printLevel e dl ''INFO'' fmtStr as s"

definition Errorf :: "env \<Rightarrow> nat \<Rightarrow> string \<Rightarrow> arg list \<Rightarrow> store \<Rightarrow> store" where
  "Errorf e dl fmtStr as s = printLevel e dl ''ERROR'' fmtStr as s"

subsection \<open>Clients and observations\<close>

text \<open>
  A client's use of one logger: a sequence of calls, each made in its own environment on
  the logger the previous call left (\<^verbatim>\<open>l = l.With(...)\<close> as in \<^verbatim>\<open>lounge_test.go\<close>).
\<close>

datatype call =
    CallWith "(string \<times> string) list"
  | CallDebugf string "arg list"
  | CallInfof string "arg list"
  | CallErrorf string "arg list"

fun doCall :: "env \<Rightarrow> call \<Rightarrow> nat \<times> store \<Rightarrow> nat \<times> store" where
  "doCall e (CallWith prs) (l, s) = With e l prs s"
| "doCall e (CallDebugf fmtStr as) (l, s) = (l, Debugf e l fmtStr as s)"
| "doCall e (CallInfof fmtStr as) (l, s) = (l, Infof e l fmtStr as s)"
| "doCall e (CallErrorf fmtStr as) (l, s) = (l, Errorf e l fmtStr as s)"

fun runCalls :: "(env \<times> call) list \<Rightarrow> nat \<times> store \<Rightarrow> nat \<times> store" where
  "runCalls [] ls = ls"
| "runCalls ((e, c) # cs) ls = runCalls cs (doCall e c ls)"

text \<open>The effective context of a logger: the content of the map it refers to.\<close>

definition contextOf :: "store \<Rightarrow> nat \<Rightarrow> string \<rightharpoonup> string" where
  "contextOf s dl = map_of (gomaps s (pairs (logs s dl)))"

text \<open>What a step from \<open>s\<close> to \<open>s'\<close> appended to writer \<open>w\<close>.\<close>

definition emitted :: "store \<Rightarrow> store \<Rightarrow> nat \<Rightarrow> string" where
  "emitted s s' w = drop (length (writers s w)) (writers s' w)"





text \<open>
  The scenario of \<^verbatim>\<open>lounge_test.go\<close>: a store in which writer 0 is the buffer the test
  hands to \<^verbatim>\<open>WithOutput\<close>, and an environment whose stack has the test function as the
  caller of the logging method.
\<close>

definition testStore :: store where
  "testStore = \<lparr>logs = (\<lambda>a. \<lparr>pairs = 0, enableDebug = False, output = 0\<rparr>),
                 gomaps = (\<lambda>a. []), writers = (\<lambda>a. []), fresh = 1\<rparr>"

definition testEnv :: env where
  "testEnv = \<lparr>now = ''2024-01-15T10:30:00Z'', gopath = None,
     callers = [\<lparr>Function = ''runtime.Callers'', File = ''extern.go'', Line = 331\<rparr>,
                \<lparr>Function = ''lounge.getFrame'', File = ''lounge.go'', Line = 136\<rparr>,
                \<lparr>Function = ''lounge.printLevel'', File = ''lounge.go'', Line = 114\<rparr>,
                \<lparr>Function = ''lounge.Infof'', File = ''lounge.go'', Line = 98\<rparr>,
                \<lparr>Function = ''lounge.TestLog'', File = ''lounge_test.go'', Line = 12\<rparr>,
                \<lparr>Function = ''testing.tRunner'', File = ''testing.go'', Line = 1690\<rparr>],
     order = [], fmtOther = (\<lambda>format as. [])\<rparr>"

definition debugLog :: "nat \<times> store" where
  "debugLog = NewDefaultLog [WithOutput 0, WithDebugEnabled] testStore"

definition plainLog :: "nat \<times> store" where
  "plainLog = NewDefaultLog [WithOutput 0] testStore"


text \<open>Two derivations from the logger without debug output, the second after the first.\<close>

definition withUser :: "nat \<times> store" where
  "withUser = With testEnv (fst plainLog) [(''user'', ''ann'')] (snd plainLog)"

definition withJob :: "nat \<times> store" where
  "withJob = With testEnv (fst plainLog) [(''job'', ''sync'')] (snd withUser)"


text \<open>Loggers whose context holds a value with a percent sign.\<close>

definition withQuery :: "nat \<times> store" where
  "withQuery = With testEnv (fst plainLog) [(''query'', ''id=%d'')] (snd plainLog)"

definition withTemplate :: "nat \<times> store" where
  "withTemplate = With testEnv (fst plainLog) [(''tmpl'', ''%s'')] (snd plainLog)"

section \<open>Properties\<close>

subsection \<open>Frame lemmas for the operations\<close>

lemma logs_Fprintf [simp]: "logs (Fprintf e w format as s) = logs s"
  by (simp add: Fprintf_def)

lemma gomaps_Fprintf [simp]: "gomaps (Fprintf e w format as s) = gomaps s"
  by (simp add: Fprintf_def)

lemma writers_Fprintf:
  "writers (Fprintf e w format as s) =
     (writers s)(w := writers s w @ Sprintf (fmtOther e) format as)"
  by (simp add: Fprintf_def)

lemma logs_printLevel [simp]: "logs (printLevel e dl level fmtStr as s) = logs s"
  by (simp add: printLevel_def Let_def)

lemma gomaps_printLevel [simp]: "gomaps (printLevel e dl level fmtStr as s) = gomaps s"
  by (simp add: printLevel_def Let_def)

lemma logs_fold_mapAssign [simp]: "logs (fold (mapAssign m) ps s) = logs s"
  by (induction ps arbitrary: s) (simp_all add: mapAssign_def)

lemma writers_fold_mapAssign [simp]: "writers (fold (mapAssign m) ps s) = writers s"
  by (induction ps arbitrary: s) (simp_all add: mapAssign_def)

lemma gomaps_fold_mapAssign:
  "gomaps (fold (mapAssign m) ps s) =
     (gomaps s)(m := fold (\<lambda>kv. AList.update (fst kv) (snd kv)) ps (gomaps s m))"
  by (induction ps arbitrary: s) (simp_all add: mapAssign_def)

lemma fst_With [simp]: "fst (With e dl prs s) = dl"
  by (simp add: With_def Let_def)

lemma logs_With [simp]: "logs (snd (With e dl prs s)) = logs s"
  by (simp add: With_def Let_def)

lemma writers_With [simp]: "writers (snd (With e dl prs s)) = writers s"
  by (simp add: With_def Let_def)

lemma gomaps_With:
  "gomaps (snd (With e dl prs s)) =
     (gomaps s)(pairs (logs s dl) :=
        fold (\<lambda>kv. AList.update (fst kv) (snd kv)) (rangeOrder (order e) prs)
          (gomaps s (pairs (logs s dl))))"
  by (simp add: With_def Let_def gomaps_fold_mapAssign)

lemma logs_doCall: "logs (snd (doCall e c (l, s))) = logs s \<and> fst (doCall e c (l, s)) = l"
  by (cases c) (simp_all add: Debugf_def Infof_def Errorf_def)

lemma logs_runCalls: "logs (snd (runCalls cs (l, s))) = logs s \<and> fst (runCalls cs (l, s)) = l"
proof (induction cs arbitrary: s)
  case Nil
  show ?case by simp
next
  case (Cons ec cs)
  obtain e c where ec: "ec = (e, c)" by (cases ec)
  obtain l' s' where step: "doCall e c (l, s) = (l', s')" by (cases "doCall e c (l, s)")
  from logs_doCall [of e c l s] step have "logs s' = logs s" and "l' = l" by simp_all
  with Cons.IH [of s'] ec step show ?case by simp
qed

subsection \<open>The order of a range is a permutation\<close>

lemma mset_rangeOrder [simp]: "mset (rangeOrder ns xs) = mset xs"
proof (induction ns xs rule: rangeOrder.induct)
  case (3 n ns x xs)
  have "mset (take n (rangeOrder ns xs)) + mset (drop n (rangeOrder ns xs)) = mset (rangeOrder ns xs)"
    by (metis append_take_drop_id mset_append)
  with 3 show ?case by (simp add: Let_def)
qed simp_all

lemma set_rangeOrder [simp]: "set (rangeOrder ns xs) = set xs"
  by (metis mset_rangeOrder set_mset_mset)

lemma distinct_keys_rangeOrder:
  "distinct (map fst (rangeOrder ns xs)) = distinct (map fst xs)"
proof -
  have "mset (map fst (rangeOrder ns xs)) = mset (map fst xs)" by simp
  then show ?thesis by (rule mset_eq_imp_distinct_iff)
qed

text \<open>Every order of the entries is the order of some range.\<close>

lemma rangeOrder_any_order:
  "mset ys = mset xs \<Longrightarrow> \<exists>ns. rangeOrder ns xs = ys"
proof (induction xs arbitrary: ys)
  case Nil
  then show ?case by simp
next
  case (Cons x xs)
  then have "x \<in> set ys" by (metis list.set_intros(1) mset_eq_setD)
  then obtain as bs where ys: "ys = as @ x # bs" by (meson split_list)
  with Cons.prems have "mset (as @ bs) = mset xs" by simp
  from Cons.IH [OF this] obtain ns where ns: "rangeOrder ns xs = as @ bs" by blast
  have "rangeOrder (length as # ns) (x # xs) = ys" by (simp add: ns ys Let_def)
  then show ?case by blast
qed

subsection \<open>What \<^verbatim>\<open>With\<close> does to the context\<close>

lemma map_of_fold_update:
  "map_of (fold (\<lambda>kv. AList.update (fst kv) (snd kv)) ps al) = map_of al ++ map_of (rev ps)"
proof (induction ps arbitrary: al)
  case Nil show ?case by simp
next
  case (Cons p ps)
  show ?case
    by (cases p)
      (simp add: Cons.IH update_conv' map_add_upd_left fun_eq_iff map_add_def split: option.splits)
qed

lemma map_of_perm:
  "distinct (map fst xs) \<Longrightarrow> mset ys = mset xs \<Longrightarrow> map_of ys = map_of xs"
  by (metis distinct_map map_of_inject_set distinct_count_atmost_1 set_mset_mset)

text \<open>
  The argument of \<^verbatim>\<open>With\<close> is a Go map, so its keys are distinct. The logger's context
  after the call has every pair of the argument, and the earlier pairs under other keys.
\<close>

lemma contextOf_With:
  assumes "distinct (map fst prs)"
  shows "contextOf (snd (With e dl prs s)) dl = contextOf s dl ++ map_of prs"
proof -
  have "mset (rev (rangeOrder (order e) prs)) = mset prs" by simp
  with assms have "map_of (rev (rangeOrder (order e) prs)) = map_of prs"
    by (rule map_of_perm)
  then show ?thesis
    by (simp add: contextOf_def gomaps_With map_of_fold_update)
qed

lemma With_empty: "With e dl [] s = (dl, s)"
  by (simp add: With_def Let_def)

subsection \<open>Formatting\<close>

lemma doPrintf_literal:
  "CHR ''%'' \<notin> set p \<Longrightarrow> doPrintf oth (p @ format) as = p @ doPrintf oth format as"
  by (induction p) auto

lemma Sprintf_literal:
  "CHR ''%'' \<notin> set p \<Longrightarrow> Sprintf oth (p @ format) as = p @ Sprintf oth format as"
  by (simp add: Sprintf_def doPrintf_literal)

lemma Sprintf_plain: "CHR ''%'' \<notin> set format \<Longrightarrow> Sprintf oth format [] = format"
  using Sprintf_literal [of format oth "[]" "[]"] by (simp add: Sprintf_def extra_def)

lemma Sprintf_pair: "Sprintf oth ''%s=%s'' [StringArg k, StringArg v] = k @ ''='' @ v"
  by (simp add: Sprintf_def extra_def)

lemma renderPairs_tokens:
  "renderPairs e m = map (\<lambda>(k, v). k @ ''='' @ v) (rangeOrder (order e) m)"
  by (simp add: renderPairs_def Sprintf_pair)

lemma emitted_Fprintf:
  "emitted s (Fprintf e w format as s) w = Sprintf (fmtOther e) format as"
  by (simp add: emitted_def writers_Fprintf)

text \<open>The format that \<^verbatim>\<open>printLevel\<close> hands to \<^verbatim>\<open>fmt.Fprintf\<close>, both branches in one.\<close>

lemma printLevel_format:
  "printLevel e dl level fmtStr as s =
     Fprintf e (output (logs s dl))
       (now e @ '' |'' @ level @ ''| '' @
        (if enableDebug (logs s dl) then callerWithLine e @ '' '' else []) @
        Join (renderPairs e (gomaps s (pairs (logs s dl)))) '' '' @ fmtStr @ ''\<newline>'') as s"
  by (simp add: printLevel_def Let_def)

lemma set_Join: "set (Join xs sep) \<subseteq> (\<Union>x\<in>set xs. set x) \<union> set sep"
  by (induction xs sep rule: Join.induct) auto

lemma emitted_printLevel:
  "emitted s (printLevel e dl level fmtStr as s) (output (logs s dl)) =
     Sprintf (fmtOther e)
       (now e @ '' |'' @ level @ ''| '' @
        (if enableDebug (logs s dl) then callerWithLine e @ '' '' else []) @
        Join (renderPairs e (gomaps s (pairs (logs s dl)))) '' '' @ fmtStr @ ''\<newline>'') as"
  by (simp only: printLevel_format emitted_Fprintf)

lemma rangeOrder_single [simp]: "rangeOrder ns [x] = [x]"
  by (cases ns) simp_all

lemma token_rendered:
  "contextOf s dl k = Some v \<Longrightarrow>
     k @ ''='' @ v \<in> set (renderPairs e (gomaps s (pairs (logs s dl))))"
proof -
  assume "contextOf s dl k = Some v"
  then have "(k, v) \<in> set (gomaps s (pairs (logs s dl)))"
    by (simp add: contextOf_def map_of_SomeD)
  then show ?thesis by (force simp add: renderPairs_tokens)
qed

lemma Join_tokens_avoid:
  assumes "\<forall>(k, v) \<in> set m. c \<notin> set k \<and> c \<notin> set v"
    and "c \<noteq> CHR ''=''" and "c \<noteq> CHR '' ''"
  shows "c \<notin> set (Join (renderPairs e m) '' '')"
proof
  assume "c \<in> set (Join (renderPairs e m) '' '')"
  with set_Join [of "renderPairs e m" "'' ''"] assms(3)
  obtain t where t: "t \<in> set (renderPairs e m)" and c: "c \<in> set t" by auto
  from t obtain k v where "(k, v) \<in> set m" and "t = k @ ''='' @ v"
    by (auto simp add: renderPairs_tokens)
  with assms(1,2) c show False by auto
qed

lemma Contains_prefix: "prefix sub t \<Longrightarrow> Contains t sub"
  by (cases t) simp_all

lemma Contains_append_left: "Contains b sub \<Longrightarrow> Contains (a @ b) sub"
  by (induction a) simp_all

lemma Contains_Join: "t \<in> set ts \<Longrightarrow> Contains (Join ts sep @ b) t"
proof (induction ts sep rule: Join.induct)
  case (1 sep)
  then show ?case by simp
next
  case (2 x sep)
  then show ?case by (simp add: Contains_prefix)
next
  case (3 x y ys sep)
  show ?case
  proof (cases "t = x")
    case True
    then show ?thesis by (simp add: Contains_prefix)
  next
    case False
    with 3 have "Contains (Join (y # ys) sep @ b) t" by simp
    then have "Contains ((x @ sep) @ Join (y # ys) sep @ b) t" by (rule Contains_append_left)
    then show ?thesis by simp
  qed
qed

text \<open>
  Where the format holds no percent sign and there are no operands, every pair of the
  context is in the line as its \<^verbatim>\<open>key=value\<close> token.
\<close>

lemma plain_line_contains_tokens:
  assumes ctx: "contextOf s dl k = Some v"
    and plain: "CHR ''%'' \<notin> set (now e @ level @ fmtStr)"
    and cwl: "enableDebug (logs s dl) \<longrightarrow> CHR ''%'' \<notin> set (callerWithLine e)"
    and toks: "\<forall>(k, v) \<in> set (gomaps s (pairs (logs s dl))). CHR ''%'' \<notin> set k \<and> CHR ''%'' \<notin> set v"
  shows "Contains (emitted s (printLevel e dl level fmtStr [] s) (output (logs s dl))) (k @ ''='' @ v)"
proof -
  let ?seg = "if enableDebug (logs s dl) then callerWithLine e @ '' '' else []"
  let ?toks = "Join (renderPairs e (gomaps s (pairs (logs s dl)))) '' ''"
  let ?line = "now e @ '' |'' @ level @ ''| '' @ ?seg @ ?toks @ fmtStr @ ''\<newline>''"
  have "CHR ''%'' \<notin> set ?toks"
    using toks by (intro Join_tokens_avoid) auto
  with plain cwl have "CHR ''%'' \<notin> set ?line" by simp
  then have out: "emitted s (printLevel e dl level fmtStr [] s) (output (logs s dl)) = ?line"
    unfolding emitted_printLevel by (rule Sprintf_plain)
  from ctx have "k @ ''='' @ v \<in> set (renderPairs e (gomaps s (pairs (logs s dl))))"
    by (rule token_rendered)
  then have "Contains (?toks @ fmtStr @ ''\<newline>'') (k @ ''='' @ v)" by (rule Contains_Join)
  then have "Contains ((now e @ '' |'' @ level @ ''| '' @ ?seg) @ ?toks @ fmtStr @ ''\<newline>'') (k @ ''='' @ v)"
    by (rule Contains_append_left)
  then show ?thesis by (simp only: out append_assoc)
qed

subsection \<open>Construction\<close>

lemma fold_applyOption_flag:
  "enableDebug (fold applyOption opts l) = (enableDebug l \<or> WithDebugEnabled \<in> set opts)"
proof (induction opts arbitrary: l)
  case Nil show ?case by simp
next
  case (Cons opt opts)
  show ?case by (cases opt) (auto simp add: Cons.IH)
qed

lemma fold_applyOption_pairs [simp]: "pairs (fold applyOption opts l) = pairs l"
proof (induction opts arbitrary: l)
  case Nil show ?case by simp
next
  case (Cons opt opts)
  show ?case by (cases opt) (simp_all add: Cons.IH)
qed

lemma NewDefaultLog_result:
  "enableDebug (logs (snd (NewDefaultLog opts s)) (fst (NewDefaultLog opts s))) = (WithDebugEnabled \<in> set opts) \<and>
   contextOf (snd (NewDefaultLog opts s)) (fst (NewDefaultLog opts s)) = Map.empty"
  by (simp add: NewDefaultLog_def Let_def fold_applyOption_flag contextOf_def)

text \<open>Without the debug flag, \<^verbatim>\<open>printLevel\<close> reads neither the stack nor \<^verbatim>\<open>GOPATH\<close>.\<close>

lemma no_caller_flow:
  "\<not> enableDebug (logs s dl) \<Longrightarrow>
     printLevel (e\<lparr>callers := cs, gopath := g\<rparr>) dl level fmtStr as s = printLevel e dl level fmtStr as s"
  by (simp add: printLevel_def Let_def renderPairs_def Fprintf_def)

subsection \<open>Caller lookup on a short stack\<close>






subsection \<open>The caller of the logging method\<close>

lemma getFrame_target: "getFrame (a # b # c # d # f # rest) 2 = f"
  by (cases rest) (simp_all add: getFrame_def frameLoop.simps)

lemma callerWithLine_frame:
  "callers e = a # b # c # d # f # rest \<Longrightarrow>
     callerWithLine e =
       (case gopath e of
          None \<Rightarrow> File f @ ''#'' @ Itoa (Line f)
        | Some g \<Rightarrow> ReplaceAll (File f @ ''#'' @ Itoa (Line f)) (g @ ''/src/'') [])"
  by (simp add: callerWithLine_def getFrame_target Let_def split: option.split)

lemma digit_in: "digit n \<in> set ''0123456789''"
  unfolding digit_def by (rule nth_mem) simp

lemma set_decimal: "set (decimal n) \<subseteq> set ''0123456789''"
proof (induction n rule: decimal.induct)
  case (1 n)
  show ?case
  proof (cases "n < 10")
    case True
    then have "decimal n = [digit n]" by (simp add: decimal.simps)
    with digit_in [of n] show ?thesis by simp
  next
    case False
    then have "decimal n = decimal (n div 10) @ [digit n]" by (subst decimal.simps) simp
    with 1 False digit_in [of n] show ?thesis by simp
  qed
qed

lemma percent_notin_Itoa: "CHR ''%'' \<notin> set (Itoa i)"
  using set_decimal [of "nat i"] set_decimal [of "nat (- i)"] by (auto simp add: Itoa_def)

lemma set_ReplaceAll_delete: "set (ReplaceAll t old []) \<subseteq> set t"
proof (induction t old "[] :: string" rule: ReplaceAll.induct)
  case (1 t old)
  show ?case
  proof (cases "old = []")
    case True
    have "concat (map (\<lambda>c. [c]) t) = t" by (induction t) simp_all
    with True show ?thesis by (subst ReplaceAll.simps) simp
  next
    case False
    note old = this
    show ?thesis
    proof (cases "t = []")
      case True
      with old show ?thesis by (subst ReplaceAll.simps) simp
    next
      case False
      note t = this
      show ?thesis
      proof (cases "prefix old t")
        case True
        with old t 1(1) have "set (ReplaceAll (drop (length old) t) old []) \<subseteq> set (drop (length old) t)"
          by simp
        moreover have "set (drop (length old) t) \<subseteq> set t" by (rule set_drop_subset)
        moreover from old t True have "ReplaceAll t old [] = ReplaceAll (drop (length old) t) old []"
          by (subst ReplaceAll.simps) simp
        ultimately show ?thesis by auto
      next
        case False
        with old t 1(2) have "set (ReplaceAll (tl t) old []) \<subseteq> set (tl t)" by simp
        moreover from t have "set (tl t) \<subseteq> set t" by (cases t) auto
        moreover from t have "hd t \<in> set t" by simp
        moreover from old t False have "ReplaceAll t old [] = hd t # ReplaceAll (tl t) old []"
          by (subst ReplaceAll.simps) simp
        ultimately show ?thesis by auto
      qed
    qed
  qed
qed

lemma percent_free_caller:
  assumes "callers e = a # b # c # d # f # rest" and "CHR ''%'' \<notin> set (File f)"
  shows "CHR ''%'' \<notin> set (callerWithLine e)"
proof -
  have plain: "CHR ''%'' \<notin> set (File f @ ''#'' @ Itoa (Line f))"
    using assms(2) percent_notin_Itoa [of "Line f"] by simp
  show ?thesis
  proof (cases "gopath e")
    case None
    with plain show ?thesis by (simp add: callerWithLine_frame [OF assms(1)])
  next
    case (Some g)
    with plain set_ReplaceAll_delete [of "File f @ ''#'' @ Itoa (Line f)" "g @ ''/src/''"]
    show ?thesis by (auto simp add: callerWithLine_frame [OF assms(1)])
  qed
qed

text \<open>
  The timestamp, the level tag and the caller location are literal text of the format when
  they hold no percent sign: they reach the line unchanged, before whatever the pairs, the
  format and the operands give. So do the pairs when no key or value holds a percent sign.
\<close>

lemma emitted_printLevel_prefix:
  assumes "CHR ''%'' \<notin> set (now e)" and "CHR ''%'' \<notin> set level"
    and "enableDebug (logs s dl) \<longrightarrow> CHR ''%'' \<notin> set (callerWithLine e)"
  shows "emitted s (printLevel e dl level fmtStr as s) (output (logs s dl)) =
     now e @ '' |'' @ level @ ''| '' @
     (if enableDebug (logs s dl) then callerWithLine e @ '' '' else []) @
     Sprintf (fmtOther e) (Join (renderPairs e (gomaps s (pairs (logs s dl)))) '' '' @ fmtStr @ ''\<newline>'') as"
proof -
  let ?p = "now e @ '' |'' @ level @ ''| '' @
     (if enableDebug (logs s dl) then callerWithLine e @ '' '' else [])"
  let ?r = "Join (renderPairs e (gomaps s (pairs (logs s dl)))) '' '' @ fmtStr @ ''\<newline>''"
  have "CHR ''%'' \<notin> set ?p" using assms by simp
  then have "Sprintf (fmtOther e) (?p @ ?r) as = ?p @ Sprintf (fmtOther e) ?r as"
    by (rule Sprintf_literal)
  then show ?thesis by (simp add: emitted_printLevel)
qed

lemma Join_tokens_percent_free:
  "\<forall>(k, v) \<in> set m. CHR ''%'' \<notin> set k \<and> CHR ''%'' \<notin> set v \<Longrightarrow>
     CHR ''%'' \<notin> set (Join (renderPairs e m) '' '')"
  by (rule Join_tokens_avoid) auto

lemma emitted_printLevel_context:
  assumes "CHR ''%'' \<notin> set (now e)" and "CHR ''%'' \<notin> set level"
    and "enableDebug (logs s dl) \<longrightarrow> CHR ''%'' \<notin> set (callerWithLine e)"
    and "\<forall>(k, v) \<in> set (gomaps s (pairs (logs s dl))). CHR ''%'' \<notin> set k \<and> CHR ''%'' \<notin> set v"
  shows "emitted s (printLevel e dl level fmtStr as s) (output (logs s dl)) =
     now e @ '' |'' @ level @ ''| '' @
     (if enableDebug (logs s dl) then callerWithLine e @ '' '' else []) @
     Join (renderPairs e (gomaps s (pairs (logs s dl)))) '' '' @
     Sprintf (fmtOther e) (fmtStr @ ''\<newline>'') as"
proof -
  let ?toks = "Join (renderPairs e (gomaps s (pairs (logs s dl)))) '' ''"
  have "CHR ''%'' \<notin> set ?toks" using assms(4) by (rule Join_tokens_percent_free)
  then have "Sprintf (fmtOther e) (?toks @ fmtStr @ ''\<newline>'') as
               = ?toks @ Sprintf (fmtOther e) (fmtStr @ ''\<newline>'') as"
    by (rule Sprintf_literal)
  then show ?thesis by (simp add: emitted_printLevel_prefix [OF assms(1-3)])
qed

lemma Contains_append_right: "Contains a sub \<Longrightarrow> Contains (a @ b) sub"
proof (induction a)
  case Nil
  then show ?case by (cases b) simp_all
next
  case (Cons c cs)
  then show ?case using prefix_prefix [of sub "c # cs" b] by auto
qed

lemma set_update_subset: "set (AList.update k v al) \<subseteq> insert (k, v) (set al)"
  by (induction al) auto

lemma set_fold_update:
  "set (fold (\<lambda>kv. AList.update (fst kv) (snd kv)) ps al) \<subseteq> set al \<union> set ps"
proof (induction ps arbitrary: al)
  case Nil show ?case by simp
next
  case (Cons p ps)
  from Cons.IH [of "AList.update (fst p) (snd p) al"] set_update_subset [of "fst p" "snd p" al]
  show ?case by auto
qed

lemma set_gomaps_With:
  "set (gomaps (snd (With e dl prs s)) (pairs (logs s dl))) \<subseteq> set (gomaps s (pairs (logs s dl))) \<union> set prs"
  using set_fold_update [of "rangeOrder (order e) prs" "gomaps s (pairs (logs s dl))"]
  by (simp add: gomaps_With)

subsection \<open>The newline at the end of the format\<close>



subsection \<open>Counting level tags and final newlines\<close>








subsection \<open>Lines of the three methods\<close>

lemma emitted_Infof_prefix:
  assumes "CHR ''%'' \<notin> set (now e)"
    and "enableDebug (logs s dl) \<longrightarrow> CHR ''%'' \<notin> set (callerWithLine e)"
  shows "emitted s (Infof e dl fmtStr as s) (output (logs s dl)) =
     now e @ '' |INFO| '' @
     (if enableDebug (logs s dl) then callerWithLine e @ '' '' else []) @
     Sprintf (fmtOther e) (Join (renderPairs e (gomaps s (pairs (logs s dl)))) '' '' @ fmtStr @ ''\<newline>'') as"
  using emitted_printLevel_prefix [OF assms(1) _ assms(2), of "''INFO''" fmtStr as]
  by (simp add: Infof_def)

lemma emitted_Errorf_prefix:
  assumes "CHR ''%'' \<notin> set (now e)"
    and "enableDebug (logs s dl) \<longrightarrow> CHR ''%'' \<notin> set (callerWithLine e)"
  shows "emitted s (Errorf e dl fmtStr as s) (output (logs s dl)) =
     now e @ '' |ERROR| '' @
     (if enableDebug (logs s dl) then callerWithLine e @ '' '' else []) @
     Sprintf (fmtOther e) (Join (renderPairs e (gomaps s (pairs (logs s dl)))) '' '' @ fmtStr @ ''\<newline>'') as"
  using emitted_printLevel_prefix [OF assms(1) _ assms(2), of "''ERROR''" fmtStr as]
  by (simp add: Errorf_def)

lemma line_contains_token:
  assumes ctx: "contextOf s dl k = Some v"
    and ts: "CHR ''%'' \<notin> set (now e)" and lvl: "CHR ''%'' \<notin> set level"
    and cw: "enableDebug (logs s dl) \<longrightarrow> CHR ''%'' \<notin> set (callerWithLine e)"
    and toks: "\<forall>(k, v) \<in> set (gomaps s (pairs (logs s dl))). CHR ''%'' \<notin> set k \<and> CHR ''%'' \<notin> set v"
  shows "Contains (emitted s (printLevel e dl level fmtStr as s) (output (logs s dl))) (k @ ''='' @ v)"
proof -
  let ?p = "now e @ '' |'' @ level @ ''| '' @
     (if enableDebug (logs s dl) then callerWithLine e @ '' '' else [])"
  let ?toks = "Join (renderPairs e (gomaps s (pairs (logs s dl)))) '' ''"
  let ?msg = "Sprintf (fmtOther e) (fmtStr @ ''\<newline>'') as"
  from ctx have "k @ ''='' @ v \<in> set (renderPairs e (gomaps s (pairs (logs s dl))))"
    by (rule token_rendered)
  then have "Contains (?toks @ ?msg) (k @ ''='' @ v)" by (rule Contains_Join)
  then have "Contains (?p @ ?toks @ ?msg) (k @ ''='' @ v)" by (rule Contains_append_left)
  then show ?thesis by (simp add: emitted_printLevel_context [OF ts lvl cw toks])
qed

subsection \<open>Debug gating\<close>

text \<open>
  Claim C4. With the debug flag off, \<^verbatim>\<open>Debugf\<close> returns at once: the store after the call
  is the store before it, so no writer received a byte and \<^verbatim>\<open>fmt.Fprintf\<close> was not
  called, whatever the format, the operands and the environment.
\<close>

theorem Debugf_disabled_no_effect:
  "\<not> enableDebug (logs s dl) \<Longrightarrow>
     Debugf e dl fmtStr as s = s \<and> emitted s (Debugf e dl fmtStr as s) w = []"
  by (simp add: Debugf_def emitted_def)

theorem Debugf_disabled_no_effect_witness:
  "\<not> enableDebug (logs (snd plainLog) (fst plainLog)) \<and>
   Debugf testEnv (fst plainLog) ''value %d'' [IntArg 7] (snd plainLog) = snd plainLog \<and>
   emitted (snd plainLog) (Debugf testEnv (fst plainLog) ''value %d'' [IntArg 7] (snd plainLog)) 0 = []"
proof -
  have off: "\<not> enableDebug (logs (snd plainLog) (fst plainLog))"
    by (simp add: plainLog_def NewDefaultLog_def Let_def)
  from off Debugf_disabled_no_effect [OF off] show ?thesis by blast
qed

subsection \<open>The debug flag and the writer never change\<close>

text \<open>
  Claim C8. Along any sequence of \<^verbatim>\<open>With\<close>, \<^verbatim>\<open>Debugf\<close>, \<^verbatim>\<open>Infof\<close> and \<^verbatim>\<open>Errorf\<close> calls on a
  logger, the logger stays the same object and its debug flag and its writer reference
  keep the values they had before the first call; so do those of every other logger in
  the store.
\<close>

theorem flag_and_output_immutable:
  "fst (runCalls cs (dl, s)) = dl \<and>
   enableDebug (logs (snd (runCalls cs (dl, s))) a) = enableDebug (logs s a) \<and>
   output (logs (snd (runCalls cs (dl, s))) a) = output (logs s a)"
  using logs_runCalls [of cs dl s] by simp

theorem flag_and_output_immutable_witness:
  "fst (runCalls [(testEnv, CallInfof ''testing log: %s'' [StringArg ''thigns'']),
                  (testEnv, CallWith [(''cool'', ''stuff'')]),
                  (testEnv, CallInfof ''testing log 2: %s'' [StringArg ''thigns''])]
          (fst debugLog, snd debugLog)) = fst debugLog \<and>
   enableDebug (logs (snd (runCalls [(testEnv, CallInfof ''testing log: %s'' [StringArg ''thigns'']),
                  (testEnv, CallWith [(''cool'', ''stuff'')]),
                  (testEnv, CallInfof ''testing log 2: %s'' [StringArg ''thigns''])]
          (fst debugLog, snd debugLog))) (fst debugLog))
     = enableDebug (logs (snd debugLog) (fst debugLog)) \<and>
   output (logs (snd (runCalls [(testEnv, CallInfof ''testing log: %s'' [StringArg ''thigns'']),
                  (testEnv, CallWith [(''cool'', ''stuff'')]),
                  (testEnv, CallInfof ''testing log 2: %s'' [StringArg ''thigns''])]
          (fst debugLog, snd debugLog))) (fst debugLog))
     = output (logs (snd debugLog) (fst debugLog))"
  by (rule flag_and_output_immutable)

subsection \<open>\<^verbatim>\<open>With\<close> of the empty mapping\<close>

text \<open>
  Claim C10. \<^verbatim>\<open>With\<close> of the empty mapping returns the logger it was called on and leaves
  the store as it was: the effective context is the original's, and \<^verbatim>\<open>Debugf\<close>, \<^verbatim>\<open>Infof\<close>
  and \<^verbatim>\<open>Errorf\<close> on the result do, in any environment and for any format and operands,
  what they do on the original.
\<close>

theorem With_empty_identity:
  "With e dl [] s = (dl, s) \<and>
   contextOf (snd (With e dl [] s)) (fst (With e dl [] s)) = contextOf s dl \<and>
   Debugf e' (fst (With e dl [] s)) fmtStr as (snd (With e dl [] s)) = Debugf e' dl fmtStr as s \<and>
   Infof e' (fst (With e dl [] s)) fmtStr as (snd (With e dl [] s)) = Infof e' dl fmtStr as s \<and>
   Errorf e' (fst (With e dl [] s)) fmtStr as (snd (With e dl [] s)) = Errorf e' dl fmtStr as s"
  by (simp add: With_empty)

theorem With_empty_identity_witness:
  "With testEnv (fst debugLog) [] (snd debugLog) = (fst debugLog, snd debugLog)"
  by (rule With_empty_identity [THEN conjunct1])

subsection \<open>Caller location on \<^verbatim>\<open>Infof\<close> and \<^verbatim>\<open>Errorf\<close> lines\<close>

text \<open>
  Against claim C1 as stated: a logger built with \<^verbatim>\<open>WithDebugEnabled\<close> that calls
  \<^verbatim>\<open>Infof("hello %s", "world")\<close> writes the caller location after the level tag, since
  \<^verbatim>\<open>printLevel\<close> tests the logger's debug flag and not the level.
\<close>

theorem Infof_debug_enabled_has_caller:
  "emitted (snd debugLog) (Infof testEnv (fst debugLog) ''hello %s'' [StringArg ''world''] (snd debugLog)) 0
     = ''2024-01-15T10:30:00Z |INFO| lounge_test.go#12 hello world\<newline>'' \<and>
   emitted (snd debugLog) (Infof testEnv (fst debugLog) ''hello %s'' [StringArg ''world''] (snd debugLog)) 0
     \<noteq> now testEnv @ '' |INFO| hello world\<newline>''"
  by code_simp

text \<open>
  Claim C1, amended. The lines of \<^verbatim>\<open>Infof\<close> and \<^verbatim>\<open>Errorf\<close> have the caller location right
  after the level tag exactly when the logger's debug flag is set. With the flag off the
  text after the tag is what the pairs, the format and the operands give, and the call
  stack and \<^verbatim>\<open>GOPATH\<close> have no influence on what is written. With the flag on, the tag is
  followed by the file of the frame at index 4 of the stack (the caller of the logging
  method), \<^verbatim>\<open>#\<close>, its line number, with \<^verbatim>\<open>GOPATH/src/\<close> cut out, and a space. The timestamp
  and the caller's file path are part of the format string: this is stated for a
  timestamp and a file path without a percent sign. A logger without context that calls
  \<^verbatim>\<open>Infof("hello %s", "world")\<close> writes \<^verbatim>\<open> |INFO| hello world\<close> after the timestamp with the
  flag off, and \<^verbatim>\<open> |INFO| lounge_test.go#12 hello world\<close> when called from line 12 of the
  test with the flag on.
\<close>

theorem Infof_Errorf_caller_iff_debug:
  assumes ts: "CHR ''%'' \<notin> set (now e)"
  shows
   "(\<not> enableDebug (logs s dl) \<longrightarrow>
       emitted s (Infof e dl fmtStr as s) (output (logs s dl)) =
         now e @ '' |INFO| '' @
         Sprintf (fmtOther e) (Join (renderPairs e (gomaps s (pairs (logs s dl)))) '' '' @ fmtStr @ ''\<newline>'') as \<and>
       emitted s (Errorf e dl fmtStr as s) (output (logs s dl)) =
         now e @ '' |ERROR| '' @
         Sprintf (fmtOther e) (Join (renderPairs e (gomaps s (pairs (logs s dl)))) '' '' @ fmtStr @ ''\<newline>'') as \<and>
       Infof (e\<lparr>callers := stack, gopath := root\<rparr>) dl fmtStr as s = Infof e dl fmtStr as s \<and>
       Errorf (e\<lparr>callers := stack, gopath := root\<rparr>) dl fmtStr as s = Errorf e dl fmtStr as s) \<and>
    (enableDebug (logs s dl) \<longrightarrow> callers e = a # b # c # d # f # rest \<longrightarrow> CHR ''%'' \<notin> set (File f) \<longrightarrow>
       emitted s (Infof e dl fmtStr as s) (output (logs s dl)) =
         now e @ '' |INFO| '' @
         (case gopath e of
            None \<Rightarrow> File f @ ''#'' @ Itoa (Line f)
          | Some g \<Rightarrow> ReplaceAll (File f @ ''#'' @ Itoa (Line f)) (g @ ''/src/'') []) @ '' '' @
         Sprintf (fmtOther e) (Join (renderPairs e (gomaps s (pairs (logs s dl)))) '' '' @ fmtStr @ ''\<newline>'') as \<and>
       emitted s (Errorf e dl fmtStr as s) (output (logs s dl)) =
         now e @ '' |ERROR| '' @
         (case gopath e of
            None \<Rightarrow> File f @ ''#'' @ Itoa (Line f)
          | Some g \<Rightarrow> ReplaceAll (File f @ ''#'' @ Itoa (Line f)) (g @ ''/src/'') []) @ '' '' @
         Sprintf (fmtOther e) (Join (renderPairs e (gomaps s (pairs (logs s dl)))) '' '' @ fmtStr @ ''\<newline>'') as) \<and>
    (gomaps s (pairs (logs s dl)) = [] \<longrightarrow>
       (\<not> enableDebug (logs s dl) \<longrightarrow>
          emitted s (Infof e dl ''hello %s'' [StringArg ''world''] s) (output (logs s dl)) =
            now e @ '' |INFO| hello world\<newline>'') \<and>
       (enableDebug (logs s dl) \<longrightarrow> callers e = a # b # c # d # f # rest \<longrightarrow> CHR ''%'' \<notin> set (File f) \<longrightarrow>
          emitted s (Infof e dl ''hello %s'' [StringArg ''world''] s) (output (logs s dl)) =
            now e @ '' |INFO| '' @
            (case gopath e of
               None \<Rightarrow> File f @ ''#'' @ Itoa (Line f)
             | Some g \<Rightarrow> ReplaceAll (File f @ ''#'' @ Itoa (Line f)) (g @ ''/src/'') []) @
            '' hello world\<newline>''))"
proof (intro conjI impI)
  assume off: "\<not> enableDebug (logs s dl)"
  then have cw: "enableDebug (logs s dl) \<longrightarrow> CHR ''%'' \<notin> set (callerWithLine e)" by simp
  show "emitted s (Infof e dl fmtStr as s) (output (logs s dl)) =
         now e @ '' |INFO| '' @
         Sprintf (fmtOther e) (Join (renderPairs e (gomaps s (pairs (logs s dl)))) '' '' @ fmtStr @ ''\<newline>'') as"
    using off by (simp add: emitted_Infof_prefix [OF ts cw])
  show "emitted s (Errorf e dl fmtStr as s) (output (logs s dl)) =
         now e @ '' |ERROR| '' @
         Sprintf (fmtOther e) (Join (renderPairs e (gomaps s (pairs (logs s dl)))) '' '' @ fmtStr @ ''\<newline>'') as"
    using off by (simp add: emitted_Errorf_prefix [OF ts cw])
  show "Infof (e\<lparr>callers := stack, gopath := root\<rparr>) dl fmtStr as s = Infof e dl fmtStr as s"
    using off by (simp add: Infof_def no_caller_flow)
  show "Errorf (e\<lparr>callers := stack, gopath := root\<rparr>) dl fmtStr as s = Errorf e dl fmtStr as s"
    using off by (simp add: Errorf_def no_caller_flow)
next
  assume on: "enableDebug (logs s dl)" and stack: "callers e = a # b # c # d # f # rest"
    and path: "CHR ''%'' \<notin> set (File f)"
  from stack path have "CHR ''%'' \<notin> set (callerWithLine e)" by (rule percent_free_caller)
  then have cw: "enableDebug (logs s dl) \<longrightarrow> CHR ''%'' \<notin> set (callerWithLine e)" by simp
  show "emitted s (Infof e dl fmtStr as s) (output (logs s dl)) =
         now e @ '' |INFO| '' @
         (case gopath e of
            None \<Rightarrow> File f @ ''#'' @ Itoa (Line f)
          | Some g \<Rightarrow> ReplaceAll (File f @ ''#'' @ Itoa (Line f)) (g @ ''/src/'') []) @ '' '' @
         Sprintf (fmtOther e) (Join (renderPairs e (gomaps s (pairs (logs s dl)))) '' '' @ fmtStr @ ''\<newline>'') as"
    using on by (simp add: emitted_Infof_prefix [OF ts cw] callerWithLine_frame [OF stack])
  show "emitted s (Errorf e dl fmtStr as s) (output (logs s dl)) =
         now e @ '' |ERROR| '' @
         (case gopath e of
            None \<Rightarrow> File f @ ''#'' @ Itoa (Line f)
          | Some g \<Rightarrow> ReplaceAll (File f @ ''#'' @ Itoa (Line f)) (g @ ''/src/'') []) @ '' '' @
         Sprintf (fmtOther e) (Join (renderPairs e (gomaps s (pairs (logs s dl)))) '' '' @ fmtStr @ ''\<newline>'') as"
    using on by (simp add: emitted_Errorf_prefix [OF ts cw] callerWithLine_frame [OF stack])
next
  assume empty: "gomaps s (pairs (logs s dl)) = []" and off: "\<not> enableDebug (logs s dl)"
  then have cw: "enableDebug (logs s dl) \<longrightarrow> CHR ''%'' \<notin> set (callerWithLine e)" by simp
  have "Sprintf (fmtOther e) (Join (renderPairs e []) '' '' @ ''hello %s'' @ ''\<newline>'') [StringArg ''world'']
          = ''hello world\<newline>''"
    by (simp add: renderPairs_def Sprintf_def extra_def)
  with off empty
  show "emitted s (Infof e dl ''hello %s'' [StringArg ''world''] s) (output (logs s dl)) =
          now e @ '' |INFO| hello world\<newline>''"
    by (simp add: emitted_Infof_prefix [OF ts cw])
next
  assume empty: "gomaps s (pairs (logs s dl)) = []" and on: "enableDebug (logs s dl)"
    and stack: "callers e = a # b # c # d # f # rest" and path: "CHR ''%'' \<notin> set (File f)"
  from stack path have "CHR ''%'' \<notin> set (callerWithLine e)" by (rule percent_free_caller)
  then have cw: "enableDebug (logs s dl) \<longrightarrow> CHR ''%'' \<notin> set (callerWithLine e)" by simp
  have "Sprintf (fmtOther e) (Join (renderPairs e []) '' '' @ ''hello %s'' @ ''\<newline>'') [StringArg ''world'']
          = ''hello world\<newline>''"
    by (simp add: renderPairs_def Sprintf_def extra_def)
  with on empty
  show "emitted s (Infof e dl ''hello %s'' [StringArg ''world''] s) (output (logs s dl)) =
          now e @ '' |INFO| '' @
          (case gopath e of
             None \<Rightarrow> File f @ ''#'' @ Itoa (Line f)
           | Some g \<Rightarrow> ReplaceAll (File f @ ''#'' @ Itoa (Line f)) (g @ ''/src/'') []) @
          '' hello world\<newline>''"
    by (simp add: emitted_Infof_prefix [OF ts cw] callerWithLine_frame [OF stack])
qed

theorem Infof_Errorf_caller_iff_debug_witness:
  "emitted (snd plainLog) (Infof testEnv (fst plainLog) ''hello %s'' [StringArg ''world''] (snd plainLog)) 0
     = ''2024-01-15T10:30:00Z |INFO| hello world\<newline>'' \<and>
   emitted (snd debugLog) (Infof testEnv (fst debugLog) ''hello %s'' [StringArg ''world''] (snd debugLog)) 0
     = ''2024-01-15T10:30:00Z |INFO| lounge_test.go#12 hello world\<newline>''"
proof
  have ts: "CHR ''%'' \<notin> set (now testEnv)" by code_simp
  have empty: "gomaps (snd plainLog) (pairs (logs (snd plainLog) (fst plainLog))) = []" by code_simp
  have off: "\<not> enableDebug (logs (snd plainLog) (fst plainLog))" by code_simp
  have w: "output (logs (snd plainLog) (fst plainLog)) = 0" by code_simp
  have v: "now testEnv @ '' |INFO| hello world\<newline>'' = ''2024-01-15T10:30:00Z |INFO| hello world\<newline>''"
    by code_simp
  from Infof_Errorf_caller_iff_debug [OF ts, THEN conjunct2, THEN conjunct2, rule_format, OF empty,
      THEN conjunct1, rule_format, OF off]
  show "emitted (snd plainLog) (Infof testEnv (fst plainLog) ''hello %s'' [StringArg ''world''] (snd plainLog)) 0
     = ''2024-01-15T10:30:00Z |INFO| hello world\<newline>''"
    by (simp only: w v)
next
  have ts: "CHR ''%'' \<notin> set (now testEnv)" by code_simp
  have empty: "gomaps (snd debugLog) (pairs (logs (snd debugLog) (fst debugLog))) = []" by code_simp
  have on: "enableDebug (logs (snd debugLog) (fst debugLog))" by code_simp
  have w: "output (logs (snd debugLog) (fst debugLog)) = 0" by code_simp
  have stack: "callers testEnv =
       \<lparr>Function = ''runtime.Callers'', File = ''extern.go'', Line = 331\<rparr> #
       \<lparr>Function = ''lounge.getFrame'', File = ''lounge.go'', Line = 136\<rparr> #
       \<lparr>Function = ''lounge.printLevel'', File = ''lounge.go'', Line = 114\<rparr> #
       \<lparr>Function = ''lounge.Infof'', File = ''lounge.go'', Line = 98\<rparr> #
       \<lparr>Function = ''lounge.TestLog'', File = ''lounge_test.go'', Line = 12\<rparr> #
       [\<lparr>Function = ''testing.tRunner'', File = ''testing.go'', Line = 1690\<rparr>]"
    by (simp add: testEnv_def)
  have path: "CHR ''%'' \<notin> set (File \<lparr>Function = ''lounge.TestLog'', File = ''lounge_test.go'', Line = 12\<rparr>)"
    by simp
  have v: "now testEnv @ '' |INFO| '' @
         (case gopath testEnv of
            None \<Rightarrow> File \<lparr>Function = ''lounge.TestLog'', File = ''lounge_test.go'', Line = 12\<rparr> @ ''#'' @
                    Itoa (Line \<lparr>Function = ''lounge.TestLog'', File = ''lounge_test.go'', Line = 12\<rparr>)
          | Some g \<Rightarrow> ReplaceAll (File \<lparr>Function = ''lounge.TestLog'', File = ''lounge_test.go'', Line = 12\<rparr> @ ''#'' @
                    Itoa (Line \<lparr>Function = ''lounge.TestLog'', File = ''lounge_test.go'', Line = 12\<rparr>)) (g @ ''/src/'') []) @
         '' hello world\<newline>''
       = ''2024-01-15T10:30:00Z |INFO| lounge_test.go#12 hello world\<newline>''" by code_simp
  from Infof_Errorf_caller_iff_debug [OF ts, THEN conjunct2, THEN conjunct2, rule_format, OF empty,
      THEN conjunct2, rule_format, OF on stack path]
  show "emitted (snd debugLog) (Infof testEnv (fst debugLog) ''hello %s'' [StringArg ''world''] (snd debugLog)) 0
     = ''2024-01-15T10:30:00Z |INFO| lounge_test.go#12 hello world\<newline>''"
    by (simp only: w v)
qed

subsection \<open>Context pairs and the message\<close>

text \<open>
  Against claim C3 as stated: after \<^verbatim>\<open>With({"env": "test"})\<close>, \<^verbatim>\<open>Errorf("boom")\<close> writes
  \<^verbatim>\<open>env=testboom\<close>; \<^verbatim>\<open>printLevel\<close> appends the format to the joined pairs with nothing
  between them.
\<close>

theorem Errorf_no_space_after_pairs:
  "emitted (snd (With testEnv (fst plainLog) [(''env'', ''test'')] (snd plainLog)))
     (Errorf testEnv (fst (With testEnv (fst plainLog) [(''env'', ''test'')] (snd plainLog))) ''boom'' []
        (snd (With testEnv (fst plainLog) [(''env'', ''test'')] (snd plainLog)))) 0
     = ''2024-01-15T10:30:00Z |ERROR| env=testboom\<newline>'' \<and>
   emitted (snd (With testEnv (fst plainLog) [(''env'', ''test'')] (snd plainLog)))
     (Errorf testEnv (fst (With testEnv (fst plainLog) [(''env'', ''test'')] (snd plainLog))) ''boom'' []
        (snd (With testEnv (fst plainLog) [(''env'', ''test'')] (snd plainLog)))) 0
     \<noteq> now testEnv @ '' |ERROR| env=test boom\<newline>''"
  by code_simp

text \<open>
  Claim C3, amended. For a logger whose context is empty before \<^verbatim>\<open>With({"env": "test"})\<close>,
  \<^verbatim>\<open>Errorf("boom")\<close> writes, with the debug flag off, the timestamp and
  \<^verbatim>\<open> |ERROR| env=testboom\<close> with a newline; with the flag on, the timestamp, \<^verbatim>\<open> |ERROR| \<close>, the
  file and line of the caller of \<^verbatim>\<open>Errorf\<close> (the frame at index 4 of the stack, \<^verbatim>\<open>GOPATH/src/\<close>
  cut out), and \<^verbatim>\<open> env=testboom\<close> with a newline. No separator stands between the pair and
  the message. The timestamp and the caller's file path are part of the format string:
  this is stated for a timestamp and a file path without a percent sign.
\<close>

theorem Errorf_env_test_line:
  assumes empty: "gomaps s (pairs (logs s dl)) = []"
    and ts: "CHR ''%'' \<notin> set (now e')"
  shows
   "(\<not> enableDebug (logs s dl) \<longrightarrow>
       emitted (snd (With e dl [(''env'', ''test'')] s))
         (Errorf e' (fst (With e dl [(''env'', ''test'')] s)) ''boom'' []
            (snd (With e dl [(''env'', ''test'')] s))) (output (logs s dl))
       = now e' @ '' |ERROR| env=testboom\<newline>'') \<and>
    (enableDebug (logs s dl) \<longrightarrow> callers e' = a # b # c # d # f # rest \<longrightarrow> CHR ''%'' \<notin> set (File f) \<longrightarrow>
       emitted (snd (With e dl [(''env'', ''test'')] s))
         (Errorf e' (fst (With e dl [(''env'', ''test'')] s)) ''boom'' []
            (snd (With e dl [(''env'', ''test'')] s))) (output (logs s dl))
       = now e' @ '' |ERROR| '' @
         (case gopath e' of
            None \<Rightarrow> File f @ ''#'' @ Itoa (Line f)
          | Some g \<Rightarrow> ReplaceAll (File f @ ''#'' @ Itoa (Line f)) (g @ ''/src/'') []) @
         '' env=testboom\<newline>'')"
proof -
  let ?s1 = "snd (With e dl [(''env'', ''test'')] s)"
  have m: "gomaps ?s1 (pairs (logs s dl)) = [(''env'', ''test'')]"
    using empty by (simp add: gomaps_With)
  have toks: "Join (renderPairs e' (gomaps ?s1 (pairs (logs ?s1 dl)))) '' '' = ''env=test''"
    by (simp add: m renderPairs_tokens)
  have msg: "Sprintf (fmtOther e') (''env=test'' @ ''boom'' @ ''\<newline>'') [] = ''env=testboom\<newline>''"
    by (simp add: Sprintf_def extra_def)
  have line: "emitted ?s1 (Errorf e' dl ''boom'' [] ?s1) (output (logs ?s1 dl)) =
       now e' @ '' |ERROR| '' @
       (if enableDebug (logs ?s1 dl) then callerWithLine e' @ '' '' else []) @ ''env=testboom\<newline>''"
    if "enableDebug (logs ?s1 dl) \<longrightarrow> CHR ''%'' \<notin> set (callerWithLine e')"
    by (simp only: emitted_Errorf_prefix [OF ts that] toks msg)
  show ?thesis
  proof (intro conjI impI)
    assume "\<not> enableDebug (logs s dl)"
    then show "emitted ?s1 (Errorf e' (fst (With e dl [(''env'', ''test'')] s)) ''boom'' [] ?s1)
          (output (logs s dl)) = now e' @ '' |ERROR| env=testboom\<newline>''"
      using line by simp
  next
    assume on: "enableDebug (logs s dl)" and stack: "callers e' = a # b # c # d # f # rest"
      and path: "CHR ''%'' \<notin> set (File f)"
    from stack path have "CHR ''%'' \<notin> set (callerWithLine e')" by (rule percent_free_caller)
    with on line show "emitted ?s1 (Errorf e' (fst (With e dl [(''env'', ''test'')] s)) ''boom'' [] ?s1)
          (output (logs s dl)) = now e' @ '' |ERROR| '' @
         (case gopath e' of
            None \<Rightarrow> File f @ ''#'' @ Itoa (Line f)
          | Some g \<Rightarrow> ReplaceAll (File f @ ''#'' @ Itoa (Line f)) (g @ ''/src/'') []) @
         '' env=testboom\<newline>''"
      by (simp add: callerWithLine_frame [OF stack])
  qed
qed

theorem Errorf_env_test_line_witness:
  "emitted (snd (With testEnv (fst plainLog) [(''env'', ''test'')] (snd plainLog)))
     (Errorf testEnv (fst (With testEnv (fst plainLog) [(''env'', ''test'')] (snd plainLog))) ''boom'' []
        (snd (With testEnv (fst plainLog) [(''env'', ''test'')] (snd plainLog)))) 0
     = ''2024-01-15T10:30:00Z |ERROR| env=testboom\<newline>'' \<and>
   emitted (snd (With testEnv (fst debugLog) [(''env'', ''test'')] (snd debugLog)))
     (Errorf testEnv (fst (With testEnv (fst debugLog) [(''env'', ''test'')] (snd debugLog))) ''boom'' []
        (snd (With testEnv (fst debugLog) [(''env'', ''test'')] (snd debugLog)))) 0
     = ''2024-01-15T10:30:00Z |ERROR| lounge_test.go#12 env=testboom\<newline>''"
proof
  have ts: "CHR ''%'' \<notin> set (now testEnv)" by code_simp
  have empty: "gomaps (snd plainLog) (pairs (logs (snd plainLog) (fst plainLog))) = []" by code_simp
  have off: "\<not> enableDebug (logs (snd plainLog) (fst plainLog))" by code_simp
  have w: "output (logs (snd plainLog) (fst plainLog)) = 0" by code_simp
  have v: "now testEnv @ '' |ERROR| env=testboom\<newline>'' = ''2024-01-15T10:30:00Z |ERROR| env=testboom\<newline>''"
    by code_simp
  from Errorf_env_test_line [OF empty ts, THEN conjunct1, rule_format, OF off, of testEnv]
  show "emitted (snd (With testEnv (fst plainLog) [(''env'', ''test'')] (snd plainLog)))
     (Errorf testEnv (fst (With testEnv (fst plainLog) [(''env'', ''test'')] (snd plainLog))) ''boom'' []
        (snd (With testEnv (fst plainLog) [(''env'', ''test'')] (snd plainLog)))) 0
     = ''2024-01-15T10:30:00Z |ERROR| env=testboom\<newline>''"
    by (simp only: w v)
next
  have ts: "CHR ''%'' \<notin> set (now testEnv)" by code_simp
  have empty: "gomaps (snd debugLog) (pairs (logs (snd debugLog) (fst debugLog))) = []" by code_simp
  have on: "enableDebug (logs (snd debugLog) (fst debugLog))" by code_simp
  have w: "output (logs (snd debugLog) (fst debugLog)) = 0" by code_simp
  have stack: "callers testEnv =
       \<lparr>Function = ''runtime.Callers'', File = ''extern.go'', Line = 331\<rparr> #
       \<lparr>Function = ''lounge.getFrame'', File = ''lounge.go'', Line = 136\<rparr> #
       \<lparr>Function = ''lounge.printLevel'', File = ''lounge.go'', Line = 114\<rparr> #
       \<lparr>Function = ''lounge.Infof'', File = ''lounge.go'', Line = 98\<rparr> #
       \<lparr>Function = ''lounge.TestLog'', File = ''lounge_test.go'', Line = 12\<rparr> #
       [\<lparr>Function = ''testing.tRunner'', File = ''testing.go'', Line = 1690\<rparr>]"
    by (simp add: testEnv_def)
  have path: "CHR ''%'' \<notin> set (File \<lparr>Function = ''lounge.TestLog'', File = ''lounge_test.go'', Line = 12\<rparr>)"
    by simp
  have v: "now testEnv @ '' |ERROR| '' @
         (case gopath testEnv of
            None \<Rightarrow> File \<lparr>Function = ''lounge.TestLog'', File = ''lounge_test.go'', Line = 12\<rparr> @ ''#'' @
                    Itoa (Line \<lparr>Function = ''lounge.TestLog'', File = ''lounge_test.go'', Line = 12\<rparr>)
          | Some g \<Rightarrow> ReplaceAll (File \<lparr>Function = ''lounge.TestLog'', File = ''lounge_test.go'', Line = 12\<rparr> @ ''#'' @
                    Itoa (Line \<lparr>Function = ''lounge.TestLog'', File = ''lounge_test.go'', Line = 12\<rparr>)) (g @ ''/src/'') []) @
         '' env=testboom\<newline>''
       = ''2024-01-15T10:30:00Z |ERROR| lounge_test.go#12 env=testboom\<newline>''" by code_simp
  from Errorf_env_test_line [OF empty ts, THEN conjunct2, rule_format, OF on stack path, of testEnv]
  show "emitted (snd (With testEnv (fst debugLog) [(''env'', ''test'')] (snd debugLog)))
     (Errorf testEnv (fst (With testEnv (fst debugLog) [(''env'', ''test'')] (snd debugLog))) ''boom'' []
        (snd (With testEnv (fst debugLog) [(''env'', ''test'')] (snd debugLog)))) 0
     = ''2024-01-15T10:30:00Z |ERROR| lounge_test.go#12 env=testboom\<newline>''"
    by (simp only: w v)
qed

subsection \<open>Two derivations from one logger\<close>

text \<open>
  Against claim C2 as stated: two \<^verbatim>\<open>With\<close> calls on one base logger, with the disjoint
  mappings \<^verbatim>\<open>{"user": "ann"}\<close> and \<^verbatim>\<open>{"job": "sync"}\<close>, both return the base logger, and a
  line written through the first result holds \<^verbatim>\<open>job=sync\<close>, a key of the second mapping
  only.
\<close>

theorem With_siblings_not_isolated:
  "fst withUser = fst plainLog \<and> fst withJob = fst plainLog \<and>
   emitted (snd withJob) (Infof testEnv (fst withUser) ''start'' [] (snd withJob)) 0
     = ''2024-01-15T10:30:00Z |INFO| user=ann job=syncstart\<newline>'' \<and>
   Contains (emitted (snd withJob) (Infof testEnv (fst withUser) ''start'' [] (snd withJob)) 0) ''job=sync''"
  by code_simp

text \<open>
  Claim C2, amended. \<^verbatim>\<open>With\<close> changes the map of the logger it is called on and returns
  that logger. Two \<^verbatim>\<open>With\<close> calls on one base logger, with mappings of disjoint keys,
  both return the base logger; its context then holds the pairs of both mappings over
  the earlier context, and every line written afterwards through either result, by
  \<^verbatim>\<open>Infof\<close>, by \<^verbatim>\<open>Errorf\<close>, or by \<^verbatim>\<open>Debugf\<close> with the debug flag set, for every format and
  operand list, holds the \<^verbatim>\<open>key=value\<close> token of every pair of both mappings. Timestamp,
  caller location and pairs are part of the format string: this is stated for a
  timestamp, a caller location and context keys and values (the earlier ones and those of
  both mappings) without a percent sign.
\<close>

theorem With_siblings_share_context:
  assumes d1: "distinct (map fst p1)" and d2: "distinct (map fst p2)"
    and disj: "fst ` set p1 \<inter> fst ` set p2 = {}"
    and pct: "\<forall>(k, v) \<in> set (gomaps s (pairs (logs s b))) \<union> set p1 \<union> set p2.
                CHR ''%'' \<notin> set k \<and> CHR ''%'' \<notin> set v"
    and ts: "CHR ''%'' \<notin> set (now e3)"
    and cw: "enableDebug (logs s b) \<longrightarrow> CHR ''%'' \<notin> set (callerWithLine e3)"
  shows "fst (With e1 b p1 s) = b \<and>
         fst (With e2 b p2 (snd (With e1 b p1 s))) = b \<and>
         contextOf (snd (With e2 b p2 (snd (With e1 b p1 s)))) b
           = contextOf s b ++ map_of p1 ++ map_of p2 \<and>
         (\<forall>(k, v) \<in> set p1 \<union> set p2.
            Contains (emitted (snd (With e2 b p2 (snd (With e1 b p1 s))))
                        (Infof e3 b fmtStr as (snd (With e2 b p2 (snd (With e1 b p1 s)))))
                        (output (logs s b))) (k @ ''='' @ v) \<and>
            Contains (emitted (snd (With e2 b p2 (snd (With e1 b p1 s))))
                        (Errorf e3 b fmtStr as (snd (With e2 b p2 (snd (With e1 b p1 s)))))
                        (output (logs s b))) (k @ ''='' @ v) \<and>
            (enableDebug (logs s b) \<longrightarrow>
               Contains (emitted (snd (With e2 b p2 (snd (With e1 b p1 s))))
                           (Debugf e3 b fmtStr as (snd (With e2 b p2 (snd (With e1 b p1 s)))))
                           (output (logs s b))) (k @ ''='' @ v)))"
proof -
  let ?s1 = "snd (With e1 b p1 s)"
  let ?s2 = "snd (With e2 b p2 ?s1)"
  have ctx: "contextOf ?s2 b = contextOf s b ++ map_of p1 ++ map_of p2"
    by (simp add: contextOf_With d1 d2)
  have "set (gomaps ?s2 (pairs (logs ?s1 b))) \<subseteq> set (gomaps ?s1 (pairs (logs ?s1 b))) \<union> set p2"
    by (rule set_gomaps_With)
  moreover have "set (gomaps ?s1 (pairs (logs s b))) \<subseteq> set (gomaps s (pairs (logs s b))) \<union> set p1"
    by (rule set_gomaps_With)
  ultimately have "set (gomaps ?s2 (pairs (logs s b))) \<subseteq> set (gomaps s (pairs (logs s b))) \<union> set p1 \<union> set p2"
    by auto
  with pct have clean: "\<forall>(k, v) \<in> set (gomaps ?s2 (pairs (logs ?s2 b))). CHR ''%'' \<notin> set k \<and> CHR ''%'' \<notin> set v"
    by auto
  have cw2: "enableDebug (logs ?s2 b) \<longrightarrow> CHR ''%'' \<notin> set (callerWithLine e3)" using cw by simp
  have inctx: "contextOf ?s2 b k = Some v" if kv: "(k, v) \<in> set p1 \<union> set p2" for k v
  proof (cases "(k, v) \<in> set p2")
    case True
    with d2 have "map_of p2 k = Some v" by simp
    then show ?thesis by (simp add: ctx)
  next
    case False
    with kv have in1: "(k, v) \<in> set p1" by simp
    with disj have "k \<notin> fst ` set p2" by force
    then have "map_of p2 k = None" by (simp add: map_of_eq_None_iff)
    moreover from in1 d1 have "map_of p1 k = Some v" by simp
    ultimately show ?thesis by (simp add: ctx map_add_def)
  qed
  have line: "Contains (emitted ?s2 (printLevel e3 b level fmtStr as ?s2) (output (logs ?s2 b))) (k @ ''='' @ v)"
    if "(k, v) \<in> set p1 \<union> set p2" and "CHR ''%'' \<notin> set level" for k v level
    using inctx [OF that(1)] ts that(2) cw2 clean by (rule line_contains_token)
  have "Contains (emitted ?s2 (Infof e3 b fmtStr as ?s2) (output (logs s b))) (k @ ''='' @ v) \<and>
        Contains (emitted ?s2 (Errorf e3 b fmtStr as ?s2) (output (logs s b))) (k @ ''='' @ v) \<and>
        (enableDebug (logs s b) \<longrightarrow>
           Contains (emitted ?s2 (Debugf e3 b fmtStr as ?s2) (output (logs s b))) (k @ ''='' @ v))"
    if kv: "(k, v) \<in> set p1 \<union> set p2" for k v
    using line [OF kv, of "''INFO''"] line [OF kv, of "''ERROR''"] line [OF kv, of "''DEBUG''"]
    by (simp add: Infof_def Errorf_def Debugf_def)
  with ctx show ?thesis by auto
qed

theorem With_siblings_share_context_witness:
  "fst withUser = fst plainLog \<and> fst withJob = fst plainLog \<and>
   Contains (emitted (snd withJob) (Infof testEnv (fst plainLog) ''start %d'' [IntArg 3] (snd withJob)) 0) ''job=sync'' \<and>
   Contains (emitted (snd withJob) (Errorf testEnv (fst plainLog) ''start %d'' [IntArg 3] (snd withJob)) 0) ''user=ann''"
proof -
  have a: "distinct (map fst [(''user'', ''ann'')])" by simp
  have b: "distinct (map fst [(''job'', ''sync'')])" by simp
  have c: "fst ` set [(''user'', ''ann'')] \<inter> fst ` set [(''job'', ''sync'')] = {}" by simp
  have empty: "gomaps (snd plainLog) (pairs (logs (snd plainLog) (fst plainLog))) = []" by code_simp
  have d: "\<forall>(k, v) \<in> set (gomaps (snd plainLog) (pairs (logs (snd plainLog) (fst plainLog))))
              \<union> set [(''user'', ''ann'')] \<union> set [(''job'', ''sync'')].
             CHR ''%'' \<notin> set k \<and> CHR ''%'' \<notin> set v"
    by (simp add: empty)
  have ts: "CHR ''%'' \<notin> set (now testEnv)" by code_simp
  have cw: "enableDebug (logs (snd plainLog) (fst plainLog)) \<longrightarrow> CHR ''%'' \<notin> set (callerWithLine testEnv)"
    by code_simp
  have w: "output (logs (snd plainLog) (fst plainLog)) = 0" by code_simp
  from With_siblings_share_context [OF a b c d ts cw, of testEnv testEnv "''start %d''" "[IntArg 3]"]
  show ?thesis by (simp add: withUser_def withJob_def w)
qed

subsection \<open>Newline and level tag\<close>




subsection \<open>The placeholder for an unknown caller\<close>




subsection \<open>Context pairs are spliced into the format string\<close>

text \<open>
  Claim C5 says that after \<^verbatim>\<open>With\<close> the context has the pairs of the argument over the
  earlier ones, and that every pair shows as a \<^verbatim>\<open>key=value\<close> token in later lines. The
  first half holds (\<open>contextOf_With\<close>), and so does the second for texts without a percent
  sign (\<open>plain_line_contains_tokens\<close>). The tokens, however, are made
  part of the format string of \<^verbatim>\<open>fmt.Fprintf\<close>, so a percent sign in a key or value is read
  as a verb: after \<^verbatim>\<open>With({"query": "id=%d"})\<close> the context has the pair, and
  \<^verbatim>\<open>Infof("run")\<close> writes \<^verbatim>\<open>query=id=%!d(MISSING)run\<close>, which does not hold the token
  \<^verbatim>\<open>query=id=%d\<close>.
\<close>

theorem percent_in_context_value_mangled:
  "contextOf (snd withQuery) (fst withQuery) ''query'' = Some ''id=%d'' \<and>
   emitted (snd withQuery) (Infof testEnv (fst withQuery) ''run'' [] (snd withQuery)) 0
     = ''2024-01-15T10:30:00Z |INFO| query=id=%!d(MISSING)run\<newline>'' \<and>
   \<not> Contains (emitted (snd withQuery) (Infof testEnv (fst withQuery) ''run'' [] (snd withQuery)) 0)
        ''query=id=%d''"
  by code_simp

text \<open>
  Claim C9 says that \<^verbatim>\<open>With\<close> returns the logger it was called on and merges the pairs
  into its map in place, so that lines written through the original reference hold the
  tokens of the new pairs. \<^verbatim>\<open>With\<close> does return the same logger and changes its map in place
  (\<open>fst_With\<close>, \<open>logs_With\<close>, \<open>gomaps_With\<close>), but the tokens meet the same defect: after
  \<^verbatim>\<open>base.With({"tmpl": "%s"})\<close>, \<^verbatim>\<open>base.Infof("user %s", "bob")\<close> writes
  \<^verbatim>\<open>tmpl=bobuser %!s(MISSING)\<close>: the context value takes the operand of the message, and
  the token \<^verbatim>\<open>tmpl=%s\<close> is not in the line.
\<close>

theorem percent_in_context_takes_operand:
  "fst withTemplate = fst plainLog \<and>
   contextOf (snd withTemplate) (fst plainLog) ''tmpl'' = Some ''%s'' \<and>
   emitted (snd withTemplate) (Infof testEnv (fst plainLog) ''user %s'' [StringArg ''bob''] (snd withTemplate)) 0
     = ''2024-01-15T10:30:00Z |INFO| tmpl=bobuser %!s(MISSING)\<newline>'' \<and>
   \<not> Contains (emitted (snd withTemplate)
          (Infof testEnv (fst plainLog) ''user %s'' [StringArg ''bob''] (snd withTemplate)) 0)
        ''tmpl=%s''"
  by code_simp

end
